theory Spec2Isabelle
  imports Main "HOL-Library.Word"
begin

section \<open>The veloq namespace wrapper (modules/veloqrs/cpp/veloq.h)\<close>

text \<open>
  The header \<^verbatim>\<open>veloq.h\<close> declares two inline functions in namespace \<^verbatim>\<open>veloq\<close>:
  \<^verbatim>\<open>
  inline uint8_t installRustCrate(jsi::Runtime &runtime,
                                  std::shared_ptr<react::CallInvoker> callInvoker) {
    return veloqrs::installRustCrate(runtime, callInvoker);
  }
  inline uint8_t cleanupRustCrate(jsi::Runtime &runtime) {
    return veloqrs::cleanupRustCrate(runtime);
  }
  \<close>
  The namespace declares no variable. The two functions of namespace \<^verbatim>\<open>veloqrs\<close> are
  declared in \<^verbatim>\<open>veloqrs.h\<close>, which is not among the sources: they are a parameter of the
  model. The other source, \<^verbatim>\<open>ios/Veloqrs.h\<close>, declares an Objective-C interface and
  holds no code.
\<close>

subsection \<open>Data\<close>

text \<open>
  \<^verbatim>\<open>uint8_t\<close> is an 8-bit word. A \<^verbatim>\<open>jsi::Runtime &\<close> is a reference to a live object,
  never null; it is modelled by the identity of the object it refers to. A
  \<^verbatim>\<open>std::shared_ptr<react::CallInvoker>\<close> is either empty (\<open>None\<close>) or shares ownership of
  one invoker object (\<open>Some\<close> of its identity).
\<close>

type_synonym uint8_t = "8 word"

type_synonym Runtime = nat

type_synonym CallInvoker = nat

type_synonym 'a shared_ptr = "'a option"

text \<open>
  The functions of namespace \<^verbatim>\<open>veloqrs\<close>. They may read and change anything they can
  reach (the runtime's heap, their own globals): \<open>'w\<close> is the whole mutable state of the
  process, and each entry point is a function from the arguments and the state before the
  call to the returned byte and the state after it. A call that throws returns no byte;
  the wrapper has no handler, and only calls that return are modelled.
\<close>

record 'w veloqrs =
  installRustCrate :: "Runtime \<Rightarrow> CallInvoker shared_ptr \<Rightarrow> 'w \<Rightarrow> uint8_t \<times> 'w"
  cleanupRustCrate :: "Runtime \<Rightarrow> 'w \<Rightarrow> uint8_t \<times> 'w"

subsection \<open>The two functions of namespace veloq\<close>

definition veloq_installRustCrate ::
  "'w veloqrs \<Rightarrow> Runtime \<Rightarrow> CallInvoker shared_ptr \<Rightarrow> 'w \<Rightarrow> uint8_t \<times> 'w" where
  "veloq_installRustCrate D runtime callInvoker w = installRustCrate D runtime callInvoker w"

definition veloq_cleanupRustCrate :: "'w veloqrs \<Rightarrow> Runtime \<Rightarrow> 'w \<Rightarrow> uint8_t \<times> 'w" where
  "veloq_cleanupRustCrate D runtime w = cleanupRustCrate D runtime w"

subsection \<open>Sequences of host calls\<close>

text \<open>
  The host calls the two functions one after the other, each call starting in the state
  the previous one left. \<open>step\<close> is one call of the wrapper, \<open>delegate_step\<close> the same call
  made on namespace \<^verbatim>\<open>veloqrs\<close> directly, and \<open>run\<close> a whole sequence of wrapper calls
  with the list of the bytes they returned.
\<close>

datatype host_op = Install Runtime "CallInvoker shared_ptr" | Cleanup Runtime

primrec step :: "'w veloqrs \<Rightarrow> host_op \<Rightarrow> 'w \<Rightarrow> uint8_t \<times> 'w" where
  "step D (Install runtime callInvoker) w = veloq_installRustCrate D runtime callInvoker w"
| "step D (Cleanup runtime) w = veloq_cleanupRustCrate D runtime w"

primrec delegate_step :: "'w veloqrs \<Rightarrow> host_op \<Rightarrow> 'w \<Rightarrow> uint8_t \<times> 'w" where
  "delegate_step D (Install runtime callInvoker) w = installRustCrate D runtime callInvoker w"
| "delegate_step D (Cleanup runtime) w = cleanupRustCrate D runtime w"

primrec run :: "'w veloqrs \<Rightarrow> host_op list \<Rightarrow> 'w \<Rightarrow> uint8_t list \<times> 'w" where
  "run D [] w = ([], w)"
| "run D (c # cs) w =
     (case step D c w of (r, w') \<Rightarrow>
        (case run D cs w' of (rs, w'') \<Rightarrow> (r # rs, w'')))"

subsection \<open>Status codes and the registry of the specification\<close>

text \<open>
  Modelled from the spec: the header names no status constant; section 6 of the
  specification fixes the status code 0 as success and every error kind as a nonzero
  value.
\<close>

definition Success :: uint8_t where
  "Success = 0"

text \<open>
  Modelled from the spec: the RuntimeHandleRegistry of section 4.1 is not in the sources
  (\<^verbatim>\<open>veloq.h\<close> keeps no record and calls no registry). The registry is the list of its
  installation records, one entry per record, naming its runtime.
\<close>

type_synonym registry = "Runtime list"

text \<open>
  Modelled from the spec: \<^verbatim>\<open>register(handle)\<close> returns true and creates a record iff no
  record exists for the handle; otherwise false, no mutation.
\<close>

definition register :: "Runtime \<Rightarrow> registry \<Rightarrow> bool \<times> registry" where
  "register h rs = (if h \<in> set rs then (False, rs) else (True, h # rs))"

text \<open>
  Modelled from the spec: \<^verbatim>\<open>unregister(handle)\<close> returns true and removes the record iff
  one exists; otherwise false, no mutation.
\<close>

definition unregister :: "Runtime \<Rightarrow> registry \<Rightarrow> bool \<times> registry" where
  "unregister h rs = (if h \<in> set rs then (True, remove1 h rs) else (False, rs))"





text \<open>
  Modelled from the spec: the wrapper keeps no installation record. By sections 3 and 4.3
  of the specification an install that succeeds registers its runtime and a cleanup that
  succeeds unregisters it; a call that fails leaves the records as they were.
  \<open>note_event\<close> applies that to one call and the status it returned, \<open>rs\<close> being the
  records before the call.
\<close>

fun note_event :: "registry \<Rightarrow> host_op \<times> uint8_t \<Rightarrow> registry" where
  "note_event rs (Install h ci, st) = (if st = Success then snd (register h rs) else rs)"
| "note_event rs (Cleanup h, st) = (if st = Success then snd (unregister h rs) else rs)"

subsection \<open>A delegate that records the calls it receives\<close>

text \<open>
  A concrete \<^verbatim>\<open>veloqrs\<close> for closed examples: its state is the log of the calls made on
  it, each with the arguments it received, and the byte it returns for a runtime is given
  by \<open>si\<close> (install) and \<open>sc\<close> (cleanup).
\<close>

datatype call = InstallCall Runtime "CallInvoker shared_ptr" | CleanupCall Runtime

definition recorder :: "(Runtime \<Rightarrow> uint8_t) \<Rightarrow> (Runtime \<Rightarrow> uint8_t) \<Rightarrow> (call list) veloqrs" where
  "recorder si sc =
     \<lparr> installRustCrate = (\<lambda>runtime callInvoker log. (si runtime, log @ [InstallCall runtime callInvoker])),
       cleanupRustCrate = (\<lambda>runtime log. (sc runtime, log @ [CleanupCall runtime])) \<rparr>"

text \<open>Two instances: one reports success for every call, one reports the runtime's own
  number as the status of an install (a failure for the runtimes 1 to 255).\<close>

definition succeeding :: "(call list) veloqrs" where
  "succeeding = recorder (\<lambda>runtime. Success) (\<lambda>runtime. Success)"

definition status_by_runtime :: "(call list) veloqrs" where
  "status_by_runtime = recorder (\<lambda>runtime. word_of_nat runtime) (\<lambda>runtime. Success)"

subsection \<open>Counting the entries into any delegate\<close>




section \<open>Properties\<close>

lemma step_is_delegate_step: "step D c w = delegate_step D c w"
  by (cases c) (simp_all add: veloq_installRustCrate_def veloq_cleanupRustCrate_def)

text \<open>
  C1. The wrapper is a pure delegation facade: for every runtime and call invoker,
  \<^verbatim>\<open>veloq::installRustCrate(runtime, callInvoker)\<close> returns exactly what
  \<^verbatim>\<open>veloqrs::installRustCrate(runtime, callInvoker)\<close> returns, and
  \<^verbatim>\<open>veloq::cleanupRustCrate(runtime)\<close> exactly what \<^verbatim>\<open>veloqrs::cleanupRustCrate(runtime)\<close>
  returns, whatever the delegate is; and the delegate receives the arguments unchanged, as
  the log of the recording delegate shows.
\<close>

theorem veloq_is_delegation_facade:
  "veloq_installRustCrate D runtime callInvoker w = installRustCrate D runtime callInvoker w
   \<and> veloq_cleanupRustCrate D runtime w = cleanupRustCrate D runtime w
   \<and> snd (veloq_installRustCrate (recorder si sc) runtime callInvoker log)
       = log @ [InstallCall runtime callInvoker]
   \<and> snd (veloq_cleanupRustCrate (recorder si sc) runtime log) = log @ [CleanupCall runtime]"
proof -
  have inst: "veloq_installRustCrate D runtime callInvoker w = installRustCrate D runtime callInvoker w"
    by (simp add: veloq_installRustCrate_def)
  have clean: "veloq_cleanupRustCrate D runtime w = cleanupRustCrate D runtime w"
    by (simp add: veloq_cleanupRustCrate_def)
  have args_inst: "snd (veloq_installRustCrate (recorder si sc) runtime callInvoker log)
      = log @ [InstallCall runtime callInvoker]"
    by (simp add: veloq_installRustCrate_def recorder_def)
  have args_clean: "snd (veloq_cleanupRustCrate (recorder si sc) runtime log) = log @ [CleanupCall runtime]"
    by (simp add: veloq_cleanupRustCrate_def recorder_def)
  from inst clean args_inst args_clean show ?thesis by simp
qed

lemma run_append:
  "run D (xs @ ys) w =
     (case run D xs w of (rs, w1) \<Rightarrow>
        (case run D ys w1 of (rs', w2) \<Rightarrow> (rs @ rs', w2)))"
  by (induction xs arbitrary: w) (auto split: prod.splits)

lemma run_snoc:
  "run D (pre @ [c]) w =
     (case run D pre w of (rs, w1) \<Rightarrow>
        (case delegate_step D c w1 of (r, w2) \<Rightarrow> (rs @ [r], w2)))"
  by (simp add: run_append step_is_delegate_step split: prod.splits)








text \<open>
  C3 (as amended). A second install for runtime \<open>h\<close> with no cleanup for \<open>h\<close> since the
  first is forwarded like any other call: it returns the status that
  \<^verbatim>\<open>veloqrs::installRustCrate\<close> returns for \<open>h\<close> and the invoker in the state the earlier
  calls left, and it leaves the state that call leaves. The wrapper has no
  already-installed status and no registry.
\<close>

theorem second_install_is_forwarded:
  assumes "Cleanup h \<notin> set mid"
  shows "run D (pre @ Install h ci0 # mid @ [Install h ci]) w =
     (case run D (pre @ Install h ci0 # mid) w of (rs, w1) \<Rightarrow>
        (case installRustCrate D h ci w1 of (r, w2) \<Rightarrow> (rs @ [r], w2)))"
proof -
  have "pre @ Install h ci0 # mid @ [Install h ci] = (pre @ Install h ci0 # mid) @ [Install h ci]"
    by simp
  then have "run D (pre @ Install h ci0 # mid @ [Install h ci]) w =
      run D ((pre @ Install h ci0 # mid) @ [Install h ci]) w"
    by (rule arg_cong)
  also have "\<dots> = (case run D (pre @ Install h ci0 # mid) w of (rs, w1) \<Rightarrow>
        (case delegate_step D (Install h ci) w1 of (r, w2) \<Rightarrow> (rs @ [r], w2)))"
    by (rule run_snoc)
  finally show ?thesis by simp
qed

theorem second_install_is_forwarded_witness:
  "Cleanup 1 \<notin> set [Install 2 (Some 9)]
   \<and> run succeeding ([] @ Install 1 (Some 7) # [Install 2 (Some 9)] @ [Install 1 (Some 8)]) [] =
       ([Success, Success, Success],
        [InstallCall 1 (Some 7), InstallCall 2 (Some 9), InstallCall 1 (Some 8)])"
proof -
  have h: "Cleanup 1 \<notin> set [Install 2 (Some 9)]" by simp
  from h second_install_is_forwarded
    [OF h, where D = succeeding and pre = "[]" and ?ci0.0 = "Some 7" and ci = "Some 8" and w = "[]"]
  show ?thesis
    by (simp add: succeeding_def recorder_def veloq_installRustCrate_def)
qed

text \<open>
  C3 as stated fails: the second install for runtime 1 returns success, and the log of
  the delegate holds two install calls, so the delegate's install entry point was invoked
  again and its state changed.
\<close>

theorem second_install_reaches_delegate:
  "run succeeding [Install 1 (Some 7), Install 1 (Some 7)] [] =
     ([Success, Success], [InstallCall 1 (Some 7), InstallCall 1 (Some 7)])"
  by (simp add: succeeding_def recorder_def veloq_installRustCrate_def)

text \<open>
  C4 (as amended). For every runtime \<open>h\<close> with no successful install before, cleanup is
  forwarded all the same: it returns the status that \<^verbatim>\<open>veloqrs::cleanupRustCrate\<close>
  returns for \<open>h\<close> in the state the earlier calls left, and it leaves the state that call
  leaves. The wrapper has no not-installed status and makes no check.
\<close>

theorem cleanup_without_install_is_forwarded:
  assumes "\<forall>ci. (Install h ci, Success) \<notin> set (zip pre (fst (run D pre w)))"
  shows "run D (pre @ [Cleanup h]) w =
     (case run D pre w of (rs, w1) \<Rightarrow>
        (case cleanupRustCrate D h w1 of (r, w2) \<Rightarrow> (rs @ [r], w2)))"
proof -
  have "run D (pre @ [Cleanup h]) w =
     (case run D pre w of (rs, w1) \<Rightarrow>
        (case delegate_step D (Cleanup h) w1 of (r, w2) \<Rightarrow> (rs @ [r], w2)))"
    by (rule run_snoc)
  then show ?thesis by simp
qed

theorem cleanup_without_install_is_forwarded_witness:
  "(\<forall>ci. (Install 1 ci, Success) \<notin>
       set (zip [Install 2 (Some 7)] (fst (run succeeding [Install 2 (Some 7)] []))))
   \<and> run succeeding ([Install 2 (Some 7)] @ [Cleanup 1]) [] =
       ([Success, Success], [InstallCall 2 (Some 7), CleanupCall 1])"
proof -
  have h: "\<forall>ci. (Install 1 ci, Success) \<notin>
       set (zip [Install 2 (Some 7)] (fst (run succeeding [Install 2 (Some 7)] [])))"
    by (simp add: succeeding_def recorder_def veloq_installRustCrate_def)
  from h cleanup_without_install_is_forwarded [OF h] show ?thesis
    by (simp add: succeeding_def recorder_def veloq_installRustCrate_def)
qed

text \<open>
  C4 as stated fails: cleanup for runtime 1 as the very first call returns success, and
  the log of the delegate holds the cleanup call.
\<close>

theorem first_cleanup_reaches_delegate:
  "veloq_cleanupRustCrate succeeding 1 [] = (Success, [CleanupCall 1])"
  by (simp add: succeeding_def recorder_def veloq_cleanupRustCrate_def)

text \<open>
  C5 (as amended). If \<^verbatim>\<open>veloqrs::installRustCrate\<close> reports a failure (a status other
  than success) for runtime \<open>h\<close>, install returns that same status, not a code of its own,
  and leaves the state the delegate left: the wrapper rolls nothing back. The failed call
  creates no installation record, so the records are those from before the call.
\<close>

theorem failed_install_returns_delegate_status:
  assumes "installRustCrate D h ci w = (st, w')" and "st \<noteq> Success"
  shows "veloq_installRustCrate D h ci w = (st, w')
    \<and> note_event rs (Install h ci, fst (veloq_installRustCrate D h ci w)) = rs"
proof -
  from assms(1) have fwd: "veloq_installRustCrate D h ci w = (st, w')"
    by (simp add: veloq_installRustCrate_def)
  with assms(2) have "note_event rs (Install h ci, fst (veloq_installRustCrate D h ci w)) = rs"
    by simp
  with fwd show ?thesis by (rule conjI)
qed

theorem failed_install_returns_delegate_status_witness:
  "installRustCrate status_by_runtime 4 (Some 7) [] = (4, [InstallCall 4 (Some 7)])
   \<and> (4 :: uint8_t) \<noteq> Success
   \<and> veloq_installRustCrate status_by_runtime 4 (Some 7) [] = (4, [InstallCall 4 (Some 7)])
   \<and> note_event [] (Install 4 (Some 7), fst (veloq_installRustCrate status_by_runtime 4 (Some 7) [])) = []"
proof -
  have h1: "installRustCrate status_by_runtime 4 (Some 7) [] = (4, [InstallCall 4 (Some 7)])"
    by (simp add: status_by_runtime_def recorder_def)
  have h2: "(4 :: uint8_t) \<noteq> Success"
    by (simp add: Success_def)
  from h1 h2 failed_install_returns_delegate_status [OF h1 h2, of "[]"] show ?thesis
    by simp
qed

text \<open>
  C5 as stated fails: the delegate fails the install for runtime 4 with status 4 and for
  runtime 5 with status 5; install returns 4 and 5, two different values, so it does not
  return one status code kept for a failed delegate install; and the log entry of the
  failed call stays.
\<close>

theorem failed_install_status_varies:
  "veloq_installRustCrate status_by_runtime 4 (Some 7) [] = (4, [InstallCall 4 (Some 7)])
   \<and> veloq_installRustCrate status_by_runtime 5 (Some 7) [] = (5, [InstallCall 5 (Some 7)])
   \<and> (4 :: uint8_t) \<noteq> 5 \<and> (4 :: uint8_t) \<noteq> Success \<and> (5 :: uint8_t) \<noteq> Success"
  by (simp add: status_by_runtime_def recorder_def veloq_installRustCrate_def Success_def)

text \<open>
  C6 (as amended). Install validates nothing: with an empty call invoker pointer it
  returns what \<^verbatim>\<open>veloqrs::installRustCrate\<close> returns for the runtime and the empty
  pointer, and the delegate receives the empty pointer, as the log of the recording
  delegate shows. (The runtime is a reference and cannot be null.)
\<close>

theorem empty_invoker_is_forwarded:
  "veloq_installRustCrate D runtime None w = installRustCrate D runtime None w
   \<and> veloq_installRustCrate (recorder si sc) runtime None log
       = (si runtime, log @ [InstallCall runtime None])"
proof -
  have fwd: "veloq_installRustCrate E runtime None v = installRustCrate E runtime None v"
    for E :: "'x veloqrs" and v
    by (simp add: veloq_installRustCrate_def)
  have "installRustCrate (recorder si sc) runtime None log
      = (si runtime, log @ [InstallCall runtime None])"
    by (simp add: recorder_def)
  with fwd [of "recorder si sc" log] have
    "veloq_installRustCrate (recorder si sc) runtime None log
      = (si runtime, log @ [InstallCall runtime None])"
    by simp
  with fwd [of D w] show ?thesis by (rule conjI)
qed

text \<open>
  C6 as stated fails: install for runtime 1 with an empty call invoker pointer returns
  success, and the log of the delegate holds the install call with the empty pointer.
\<close>

theorem empty_invoker_reaches_delegate:
  "veloq_installRustCrate succeeding 1 None [] = (Success, [InstallCall 1 None])"
  by (simp add: succeeding_def recorder_def veloq_installRustCrate_def)







text \<open>
  C9. The wrapper is stateless: the state after a call of either function is the state
  after the one delegate call it makes, and whatever observation \<open>f\<close> of the state that
  delegate call leaves unchanged, the wrapper call leaves unchanged.
\<close>

theorem wrapper_has_no_state:
  assumes "f (snd (delegate_step D c w)) = f w"
  shows "snd (step D c w) = snd (delegate_step D c w) \<and> f (snd (step D c w)) = f w"
proof -
  have same: "snd (step D c w) = snd (delegate_step D c w)"
    by (simp add: step_is_delegate_step)
  with assms have "f (snd (step D c w)) = f w"
    by simp
  with same show ?thesis by (rule conjI)
qed

theorem wrapper_has_no_state_witness:
  "hd (snd (delegate_step succeeding (Install 1 (Some 7)) [CleanupCall 2])) = hd [CleanupCall 2]
   \<and> snd (step succeeding (Install 1 (Some 7)) [CleanupCall 2])
       = snd (delegate_step succeeding (Install 1 (Some 7)) [CleanupCall 2])
   \<and> hd (snd (step succeeding (Install 1 (Some 7)) [CleanupCall 2])) = hd [CleanupCall 2]"
proof -
  have h: "hd (snd (delegate_step succeeding (Install 1 (Some 7)) [CleanupCall 2]))
      = hd [CleanupCall 2]"
    by (simp add: succeeding_def recorder_def)
  from h wrapper_has_no_state [of hd, OF h] show ?thesis
    by (rule conjI)
qed

text \<open>
  C10. Both functions are deterministic, with no dependency on the calls made before: for
  two calls with equal arguments, made after any two histories \<open>pre1\<close> and \<open>pre2\<close>, for
  which the delegate returns equal statuses, the wrapper returns equal statuses.
\<close>

theorem wrapper_is_deterministic:
  assumes "fst (delegate_step D c (snd (run D pre1 w1)))
         = fst (delegate_step D' c (snd (run D' pre2 w2)))"
  shows "last (fst (run D (pre1 @ [c]) w1)) = last (fst (run D' (pre2 @ [c]) w2))"
proof -
  have "last (fst (run E (pre @ [c]) v)) = fst (delegate_step E c (snd (run E pre v)))"
    for E :: "'x veloqrs" and pre v
    by (simp add: run_snoc split: prod.splits)
  from this [of D pre1 w1] this [of D' pre2 w2] assms show ?thesis
    by simp
qed

theorem wrapper_is_deterministic_witness:
  "fst (delegate_step succeeding (Install 1 (Some 7)) (snd (run succeeding [] [])))
     = fst (delegate_step succeeding (Install 1 (Some 7))
         (snd (run succeeding [Install 1 (Some 7), Cleanup 1] [])))
   \<and> last (fst (run succeeding ([] @ [Install 1 (Some 7)]) []))
     = last (fst (run succeeding ([Install 1 (Some 7), Cleanup 1] @ [Install 1 (Some 7)]) []))"
proof -
  have h: "fst (delegate_step succeeding (Install 1 (Some 7)) (snd (run succeeding [] [])))
     = fst (delegate_step succeeding (Install 1 (Some 7))
         (snd (run succeeding [Install 1 (Some 7), Cleanup 1] [])))"
    by (simp add: succeeding_def recorder_def)
  from h wrapper_is_deterministic [OF h] show ?thesis
    by (rule conjI)
qed

end
